theory Spec2Isabelle
  imports Main "HOL-Library.Word"
begin

unbundle bit_operations_syntax

section \<open>seedkit: input normalisation and BIP39 checksum-word completion\<close>

text \<open>
  A shallow embedding of the helper functions of \<^verbatim>\<open>main.go\<close>:
  \<^verbatim>\<open>parseGroups\<close>, \<^verbatim>\<open>convertWordsToShares\<close>, \<^verbatim>\<open>readShareMnemonics\<close>,
  \<^verbatim>\<open>bip39Entropy\<close> and \<^verbatim>\<open>bip39ChecksumWords\<close>.

  Go strings are byte sequences: \<open>string\<close> (a \<open>char list\<close>). A Go function returning
  \<^verbatim>\<open>(value, error)\<close> returns \<open>error + value\<close> here, \<open>Inl\<close> being the error; every
  such return of the source passes \<^verbatim>\<open>nil\<close> as the value. A run-time panic of the Go
  program (an index out of range, for instance) is the error \<open>Panic\<close>.
\<close>

subsection \<open>Errors\<close>

datatype panic =
    IndexOutOfRange      \<comment> \<open>index or slice bound out of range\<close>
  | BufferTooSmall       \<comment> \<open>\<^verbatim>\<open>big.Int.FillBytes\<close>: the value does not fit the buffer\<close>
  | NegativeShift        \<comment> \<open>shift by a negative amount\<close>
  | ShiftTooLarge        \<comment> \<open>\<^verbatim>\<open>big.Int.Lsh\<close> of a non-zero value by about \<open>2^64\<close> bits\<close>

datatype error =
    InvalidWord string               \<comment> \<open>\<^verbatim>\<open>invalid mnemonic word %q\<close>\<close>
  | InvalidGroupDefinition string    \<comment> \<open>\<^verbatim>\<open>invalid group definition: %q\<close>\<close>
  | InvalidGroupFormat string int    \<comment> \<open>\<^verbatim>\<open>invalid group format: %q (not "MofN", M <= N, N <= %d)\<close>\<close>
  | NoWordsProvided                  \<comment> \<open>\<^verbatim>\<open>no SLIP39 mnemonic words provided\<close>\<close>
  | InvalidWordListLength nat        \<comment> \<open>\<^verbatim>\<open>invalid SLIP39 word list length - %d is not a multiple of 33 or 20\<close>\<close>
  | ScanningInput string             \<comment> \<open>\<^verbatim>\<open>scanning input: %w\<close>\<close>
  | Panic panic

subsection \<open>The Go library functions the helpers call\<close>

text \<open>\<^verbatim>\<open>strings.Join(elems, sep)\<close>.\<close>

fun Join :: "string list \<Rightarrow> string \<Rightarrow> string" where
  "Join [] sep = []"
| "Join [x] sep = x"
| "Join (x # y # ys) sep = x @ sep @ Join (y # ys) sep"

text \<open>\<^verbatim>\<open>strings.Contains(s, substr)\<close>: \<open>substr\<close> occurs in \<open>s\<close> as a contiguous run.\<close>

fun Contains :: "string \<Rightarrow> string \<Rightarrow> bool" where
  "Contains [] substr = (substr = [])"
| "Contains (c # cs) substr = (take (length substr) (c # cs) = substr \<or> Contains cs substr)"

text \<open>
  The regular expression \<^verbatim>\<open>reGroup = ^(\d{1,2})of(\d{1,2})$\<close> and
  \<^verbatim>\<open>FindStringSubmatch\<close> on it: the two submatches, or \<open>None\<close> when the token
  does not match. \<^verbatim>\<open>\d\<close> is an ASCII digit and \<^verbatim>\<open>$\<close> the end of the text; since
  \<^verbatim>\<open>o\<close> is not a digit the first group is the whole leading run of digits.
\<close>

definition isDigit :: "char \<Rightarrow> bool" where
  "isDigit c = (c \<in> set ''0123456789'')"

definition reGroup :: "string \<Rightarrow> (string \<times> string) option" where
  "reGroup g =
     (let m1 = takeWhile isDigit g;
          rest = dropWhile isDigit g;
          m2 = drop 2 rest
      in if (length m1 = 1 \<or> length m1 = 2) \<and> take 2 rest = ''of''
            \<and> (length m2 = 1 \<or> length m2 = 2) \<and> list_all isDigit m2
         then Some (m1, m2) else None)"

text \<open>\<^verbatim>\<open>strconv.Atoi\<close> on a string of decimal digits (the only strings it is given).\<close>

definition digitVal :: "char \<Rightarrow> int" where
  "digitVal c = int (of_char c) - 48"

definition Atoi :: "string \<Rightarrow> int" where
  "Atoi s = foldl (\<lambda>a c. 10 * a + digitVal c) 0 s"

subsection \<open>parseGroups\<close>

definition GroupLimit :: int where
  "GroupLimit = 16"

record MemberGroupParameters =
  MemberThreshold :: int
  MemberCount :: int

text \<open>
  The loop of \<^verbatim>\<open>parseGroups\<close> over the tokens, \<open>groups\<close> being the slice built so
  far; the first token that fails returns its error at once.
\<close>

fun parseGroups_loop ::
  "string list \<Rightarrow> MemberGroupParameters list \<Rightarrow> error + MemberGroupParameters list" where
  "parseGroups_loop [] groups = Inr groups"
| "parseGroups_loop (g # gs) groups =
     (case reGroup g of
        None \<Rightarrow> Inl (InvalidGroupDefinition g)
      | Some (m1, m2) \<Rightarrow>
          (let t = Atoi m1; n = Atoi m2
           in if t > GroupLimit \<or> n > GroupLimit \<or> t > n
              then Inl (InvalidGroupFormat g GroupLimit)
              else parseGroups_loop gs
                     (groups @ [\<lparr>MemberThreshold = t, MemberCount = n\<rparr>])))"

definition parseGroups :: "string list \<Rightarrow> error + MemberGroupParameters list" where
  "parseGroups groupstr = parseGroups_loop groupstr []"

text \<open>
  What the claims about \<^verbatim>\<open>parseGroups\<close> speak of: a token is offending when it does
  not match the pattern, or its threshold or its count exceeds 16, or its threshold
  exceeds its count; \<open>groupError\<close> is the error the source builds for such a token,
  \<open>errorToken\<close> the token an error quotes, and \<open>tokenPair g p\<close> says that \<open>p\<close> is the
  pair written in the token \<open>g\<close>.
\<close>

definition offending :: "string \<Rightarrow> bool" where
  "offending g =
     (case reGroup g of
        None \<Rightarrow> True
      | Some (m1, m2) \<Rightarrow> Atoi m1 > 16 \<or> Atoi m2 > 16 \<or> Atoi m1 > Atoi m2)"

definition groupError :: "string \<Rightarrow> error" where
  "groupError g =
     (case reGroup g of
        None \<Rightarrow> InvalidGroupDefinition g
      | Some _ \<Rightarrow> InvalidGroupFormat g 16)"

fun errorToken :: "error \<Rightarrow> string option" where
  "errorToken (InvalidGroupDefinition g) = Some g"
| "errorToken (InvalidGroupFormat g _) = Some g"
| "errorToken _ = None"

definition tokenPair :: "string \<Rightarrow> MemberGroupParameters \<Rightarrow> bool" where
  "tokenPair g p =
     (case reGroup g of
        None \<Rightarrow> False
      | Some (m1, m2) \<Rightarrow> p = \<lparr>MemberThreshold = Atoi m1, MemberCount = Atoi m2\<rparr>)"

subsection \<open>convertWordsToShares\<close>

text \<open>
  The loop \<^verbatim>\<open>for i := 0; i < len(words); i += mlen\<close>. The slice
  \<^verbatim>\<open>words[i:i+mlen]\<close> panics when its upper bound is out of range. The loop only
  runs with \<open>mlen\<close> 33 or 20; the conjunct \<open>0 < mlen\<close> is there for the recursion
  to be well-founded.
\<close>

function convertWordsToShares_loop ::
  "string list \<Rightarrow> nat \<Rightarrow> nat \<Rightarrow> string list \<Rightarrow> error + string list" where
  "convertWordsToShares_loop words mlen i mnemonics =
     (if i < length words \<and> 0 < mlen then
        (if i + mlen \<le> length words
         then convertWordsToShares_loop words mlen (i + mlen)
                (mnemonics @ [Join (take mlen (drop i words)) '' ''])
         else Inl (Panic IndexOutOfRange))
      else Inr mnemonics)"
  by pat_completeness auto
termination
  by (relation "measure (\<lambda>(words, mlen, i, mnemonics). length words - i)") auto

declare convertWordsToShares_loop.simps [simp del]

definition convertWordsToShares :: "string list \<Rightarrow> error + string list" where
  "convertWordsToShares words =
     (if length words = 0 then Inl NoWordsProvided
      else
        (let mlen = (if length words mod 33 = 0 then 33
                     else if length words mod 20 = 0 then 20
                     else 0)
         in if mlen = 0 then Inl (InvalidWordListLength (length words))
            else convertWordsToShares_loop words mlen 0 []))"

text \<open>
  The partition of a list into consecutive chunks of \<open>n\<close> elements, as the claims
  describe the result, and the flattening of shares into their words
  (\<^verbatim>\<open>strings.Split(s, " ")\<close> of every share, in order).
\<close>

function chunks :: "nat \<Rightarrow> 'a list \<Rightarrow> 'a list list" where
  "chunks n xs = (if xs = [] \<or> n = 0 then [] else take n xs # chunks n (drop n xs))"
  by pat_completeness auto
termination
  by (relation "measure (\<lambda>(n, xs). length xs)") auto

declare chunks.simps [simp del]

fun splitSpaces :: "string \<Rightarrow> string list" where
  "splitSpaces [] = [[]]"
| "splitSpaces (c # cs) =
     (if c = CHR '' '' then [] # splitSpaces cs
      else (case splitSpaces cs of
              [] \<Rightarrow> [[c]]
            | w # ws \<Rightarrow> (c # w) # ws))"

definition wordsOf :: "string list \<Rightarrow> string list" where
  "wordsOf shares = concat (map splitSpaces shares)"

subsection \<open>readShareMnemonics\<close>

text \<open>
  The auxiliary line source (\<^verbatim>\<open>ctx.reader\<close>, or standard input when that is
  \<^verbatim>\<open>nil\<close>) as \<^verbatim>\<open>bufio.Scanner\<close> presents it: the lines \<^verbatim>\<open>scanner.Scan()\<close> yields,
  and the error \<^verbatim>\<open>scanner.Err()\<close> reports once scanning has stopped.
\<close>

record reader =
  scanned :: "string list"
  scanErr :: "string option"

text \<open>
  \<^verbatim>\<open>strings.ToLower\<close> and \<^verbatim>\<open>strings.TrimSpace\<close> follow Unicode's case mapping and
  white space; they are parameters of the model, so that what is proved holds for Go's
  functions as they are.

  The source fills \<open>mnemonics\<close> from the arguments (1 to 19 of them: one entry each; 20
  or more: one entry, the arguments joined), reads the lines of the reader when that
  left \<open>mnemonics\<close> empty, and then looks at \<^verbatim>\<open>mnemonics[0]\<close>, which panics on an empty
  slice.
\<close>

definition readShareMnemonics ::
  "(string \<Rightarrow> string) \<Rightarrow> (string \<Rightarrow> string) \<Rightarrow> reader \<Rightarrow> string list
     \<Rightarrow> error + string list" where
  "readShareMnemonics ToLower TrimSpace rd args =
     (let fromArgs =
            (if 0 < length args \<and> length args < 20 then map ToLower args
             else if 20 \<le> length args then [ToLower (Join args '' '')]
             else [])
      in case (if length fromArgs = 0
               then (case scanErr rd of
                       Some e \<Rightarrow> Inl (ScanningInput e)
                     | None \<Rightarrow>
                         Inr (fromArgs @ map (\<lambda>line. ToLower (TrimSpace line)) (scanned rd)))
               else Inr fromArgs) of
           Inl e \<Rightarrow> Inl e
         | Inr mnemonics \<Rightarrow>
             (case mnemonics of
                [] \<Rightarrow> Inl (Panic IndexOutOfRange)
              | m0 # _ \<Rightarrow>
                  if \<not> Contains (TrimSpace m0) '' '' then convertWordsToShares mnemonics
                  else Inr mnemonics))"

text \<open>The ASCII white space characters: space, tab, line feed, VT, FF, CR.\<close>

definition isSpace :: "char \<Rightarrow> bool" where
  "isSpace c = (c \<in> set [CHR '' '', CHR 0x09, CHR 0x0A, CHR 0x0B, CHR 0x0C, CHR 0x0D])"

text \<open>
  An entry has no white space inside when none is left once the surrounding white
  space is trimmed.
\<close>

definition noInternalWhitespace :: "(string \<Rightarrow> string) \<Rightarrow> string \<Rightarrow> bool" where
  "noInternalWhitespace TrimSpace s = list_all (\<lambda>c. \<not> isSpace c) (TrimSpace s)"

text \<open>
  Instances of the two library functions for the concrete examples: both as Go
  computes them on ASCII text.
\<close>

definition asciiToLower :: "string \<Rightarrow> string" where
  "asciiToLower s =
     map (\<lambda>c. if c \<in> set ''ABCDEFGHIJKLMNOPQRSTUVWXYZ''
              then char_of (of_char c + (32::nat)) else c) s"

definition asciiTrimSpace :: "string \<Rightarrow> string" where
  "asciiTrimSpace s = rev (dropWhile isSpace (rev (dropWhile isSpace s)))"

text \<open>
  Sample entries: two words separated by a tab, and twenty words separated by single
  spaces.
\<close>

definition tabEntry :: string where
  "tabEntry = [CHR ''a'', CHR 0x09, CHR ''b'']"

definition acid20 :: string where
  "acid20 = ''acid acid acid acid acid acid acid acid acid acid acid acid acid acid acid acid acid acid acid acid''"

subsection \<open>bip39Entropy and bip39ChecksumWords\<close>

text \<open>
  The vocabulary \<^verbatim>\<open>bip39.GetWordList()\<close> and the hash \<^verbatim>\<open>crypto/sha256\<close> belong to
  libraries; both are parameters of the model: \<open>wordlist\<close>, a list of words, and
  \<open>sha256\<close>, from the bytes written to the digest (32 bytes for the real function).
  \<^verbatim>\<open>bip39.GetWordIndex\<close> looks a word up in the map the library fills from its word
  list, \<^verbatim>\<open>for i, v := range wordList { wordMap[v] = i }\<close>.
\<close>

type_synonym byte = "8 word"

definition wordMap :: "string list \<Rightarrow> (string \<rightharpoonup> nat)" where
  "wordMap wordList =
     fold (\<lambda>(i, v) m. m(v \<mapsto> i)) (zip [0..<length wordList] wordList) Map.empty"

definition GetWordIndex :: "string list \<Rightarrow> string \<Rightarrow> nat option" where
  "GetWordIndex wordlist w = wordMap wordlist w"

text \<open>
  \<^verbatim>\<open>bip39Entropy\<close>: the \<^verbatim>\<open>big.Int\<close> \<open>i\<close> is never negative, a \<open>nat\<close>; each word
  shifts it left by 11 bits and ORs the word's index in. The first word that is not in
  the vocabulary returns the error.
\<close>

fun bip39Entropy_loop :: "string list \<Rightarrow> string list \<Rightarrow> nat \<Rightarrow> error + nat" where
  "bip39Entropy_loop wordlist [] i = Inr i"
| "bip39Entropy_loop wordlist (w # ws) i =
     (case GetWordIndex wordlist w of
        None \<Rightarrow> Inl (InvalidWord w)
      | Some idx \<Rightarrow> bip39Entropy_loop wordlist ws (push_bit 11 i OR idx))"

definition bip39Entropy :: "string list \<Rightarrow> string list \<Rightarrow> error + nat" where
  "bip39Entropy wordlist partialWords = bip39Entropy_loop wordlist partialWords 0"

text \<open>
  \<^verbatim>\<open>big.Int.FillBytes(buf)\<close> with a buffer of \<open>n\<close> bytes: the value as \<open>n\<close> big-endian
  bytes, zero-extended; it panics when the value does not fit.
\<close>

fun bigEndian :: "nat \<Rightarrow> nat \<Rightarrow> byte list" where
  "bigEndian 0 x = []"
| "bigEndian (Suc n) x = bigEndian n (x div 256) @ [of_nat (x mod 256)]"

definition FillBytes :: "nat \<Rightarrow> nat \<Rightarrow> byte list option" where
  "FillBytes x n = (if x < 256 ^ n then Some (bigEndian n x) else None)"

text \<open>
  One round of the loop of \<^verbatim>\<open>bip39ChecksumWords\<close>, for the counter \<open>i\<close> and the
  current \<open>entropyCandidate\<close>: the index \<^verbatim>\<open>(i << checksumBits) + checksum\<close> and the
  word found there. \<^verbatim>\<open>hash[0] >> (8 - checksumBits)\<close> panics on a negative shift
  count, \<^verbatim>\<open>wordlist[idx]\<close> on an index out of range.
\<close>

definition checkwordIndex :: "nat \<Rightarrow> nat \<Rightarrow> byte \<Rightarrow> nat" where
  "checkwordIndex checksumBits i h0 =
     (let checksum = drop_bit (8 - checksumBits) (unat h0)
      in push_bit checksumBits i + checksum)"

definition checksum_round ::
  "(byte list \<Rightarrow> byte list) \<Rightarrow> string list \<Rightarrow> nat \<Rightarrow> nat \<Rightarrow> nat \<Rightarrow> nat \<Rightarrow> error + string" where
  "checksum_round sha256 wordlist checksumBits entropySize i entropyCandidate =
     (case FillBytes entropyCandidate entropySize of
        None \<Rightarrow> Inl (Panic BufferTooSmall)
      | Some entropyBytes \<Rightarrow>
          (case sha256 entropyBytes of
             [] \<Rightarrow> Inl (Panic IndexOutOfRange)
           | h0 # _ \<Rightarrow>
               if 8 < checksumBits then Inl (Panic NegativeShift)
               else
                 (let idx = checkwordIndex checksumBits i h0
                  in if idx < length wordlist then Inr (wordlist ! idx)
                     else Inl (Panic IndexOutOfRange))))"

text \<open>
  The loop \<^verbatim>\<open>for i := range iterations\<close>: each round appends its word to
  \<open>checksums\<close> and adds 1 to \<open>entropyCandidate\<close>.
\<close>

function checksum_loop ::
  "(byte list \<Rightarrow> byte list) \<Rightarrow> string list \<Rightarrow> nat \<Rightarrow> nat \<Rightarrow> nat \<Rightarrow> nat \<Rightarrow> nat
     \<Rightarrow> string list \<Rightarrow> error + string list" where
  "checksum_loop sha256 wordlist checksumBits entropySize iterations i entropyCandidate checksums =
     (if i < iterations then
        (case checksum_round sha256 wordlist checksumBits entropySize i entropyCandidate of
           Inl e \<Rightarrow> Inl e
         | Inr checkword \<Rightarrow>
             checksum_loop sha256 wordlist checksumBits entropySize iterations (Suc i)
               (entropyCandidate + 1) (checksums @ [checkword]))
      else Inr checksums)"
  by pat_completeness auto
termination
  by (relation "measure (\<lambda>(sha256, wordlist, checksumBits, entropySize, iterations, i,
        entropyCandidate, checksums). iterations - i)") auto

declare checksum_loop.simps [simp del]

text \<open>
  \<^verbatim>\<open>bip39ChecksumWords\<close>. The sizes are Go \<^verbatim>\<open>int\<close>s; \<^verbatim>\<open>entropyToFill\<close> is negative
  when \<open>checksumBits\<close> exceeds 11 (36 words or more): \<^verbatim>\<open>uint(entropyToFill)\<close> is
  then a shift of about \<open>2^64\<close> bits, which leaves a zero \<^verbatim>\<open>big.Int\<close> as it is and
  cannot be done for any other, and \<^verbatim>\<open>int(math.Pow(2, float64(entropyToFill)))\<close> is 0,
  so the loop does not run. Otherwise \<^verbatim>\<open>math.Pow\<close> is the exact power of 2.
\<close>

definition bip39ChecksumWords ::
  "(byte list \<Rightarrow> byte list) \<Rightarrow> string list \<Rightarrow> string list \<Rightarrow> error + string list" where
  "bip39ChecksumWords sha256 wordlist partialWords =
     (case bip39Entropy wordlist partialWords of
        Inl err \<Rightarrow> Inl err
      | Inr entropy \<Rightarrow>
          (let size = length partialWords + 1;
               checksumBits = size div 3;
               entropySize = (size * 11 - checksumBits) div 8
           in if 11 < checksumBits
              then (if entropy = 0 then Inr [] else Inl (Panic ShiftTooLarge))
              else
                (let entropyToFill = 11 - checksumBits;
                     entropyBase = push_bit entropyToFill entropy;
                     iterations = 2 ^ entropyToFill
                 in checksum_loop sha256 wordlist checksumBits entropySize iterations 0
                      entropyBase [])))"


text \<open>
  A vocabulary of 2048 distinct words and a function with 32-byte digests, for the
  concrete instances below.
\<close>

definition sampleWord :: "nat \<Rightarrow> string" where
  "sampleWord n = replicate (Suc n) CHR ''w''"

definition sampleWordlist :: "string list" where
  "sampleWordlist = map sampleWord [0..<2048]"

definition sampleHash :: "byte list \<Rightarrow> byte list" where
  "sampleHash bs = replicate 32 (sum_list bs + 1)"

definition samplePartial :: "nat \<Rightarrow> string list" where
  "samplePartial n = map sampleWord [0..<n]"

text \<open>
  The word of round \<open>i\<close> of the loop, when the loop starts from \<open>base\<close>: the
  vocabulary word at the index computed from \<open>i\<close> and the first byte of the hash of
  \<open>base + i\<close>.
\<close>

definition nthCheckword ::
  "(byte list \<Rightarrow> byte list) \<Rightarrow> string list \<Rightarrow> nat \<Rightarrow> nat \<Rightarrow> nat \<Rightarrow> nat \<Rightarrow> string" where
  "nthCheckword H wl cb es base i = wl ! checkwordIndex cb i (hd (H (bigEndian es (base + i))))"

text \<open>Sample shares for the concrete instances below: 20 and 33 one-letter words.\<close>

definition share20 :: string where
  "share20 = Join (replicate 20 ''a'') '' ''"

definition share33 :: string where
  "share33 = Join (replicate 33 ''a'') '' ''"

section \<open>Properties of parseGroups\<close>

lemma parseGroups_loop_char:
  "(case find offending gs of
      Some g \<Rightarrow> parseGroups_loop gs acc = Inl (groupError g)
    | None \<Rightarrow> (\<exists>groups. parseGroups_loop gs acc = Inr (acc @ groups) \<and> list_all2 tokenPair gs groups))"
proof (induction gs arbitrary: acc)
  case Nil
  then show ?case by simp
next
  case (Cons g gs)
  show ?case
  proof (cases "offending g")
    case True
    then show ?thesis
      by (auto simp: offending_def groupError_def GroupLimit_def Let_def split: option.splits)
  next
    case False
    then obtain m1 m2 where m: "reGroup g = Some (m1, m2)"
      and ok: "\<not> Atoi m1 > 16" "\<not> Atoi m2 > 16" "\<not> Atoi m1 > Atoi m2"
      by (auto simp: offending_def split: option.splits)
    let ?p = "\<lparr>MemberThreshold = Atoi m1, MemberCount = Atoi m2\<rparr>"
    have step: "parseGroups_loop (g # gs) acc = parseGroups_loop gs (acc @ [?p])"
      using m ok by (simp add: GroupLimit_def)
    show ?thesis
    proof (cases "find offending gs")
      case None
      with Cons.IH [of "acc @ [?p]"] obtain groups where
        "parseGroups_loop gs (acc @ [?p]) = Inr ((acc @ [?p]) @ groups)" "list_all2 tokenPair gs groups"
        by auto
      then have "parseGroups_loop (g # gs) acc = Inr (acc @ (?p # groups)) \<and> list_all2 tokenPair (g # gs) (?p # groups)"
        using step m by (simp add: tokenPair_def)
      then show ?thesis using False None by auto
    next
      case (Some h)
      with Cons.IH [of "acc @ [?p]"] show ?thesis using False step by simp
    qed
  qed
qed


lemma Atoi_nonneg_aux: "list_all isDigit s \<Longrightarrow> 0 \<le> a \<Longrightarrow> 0 \<le> foldl (\<lambda>a c. 10 * a + digitVal c) a s"
proof (induction s arbitrary: a)
  case Nil then show ?case by simp
next
  case (Cons c s)
  have "0 \<le> digitVal c" using Cons.prems(1) by (auto simp: isDigit_def digitVal_def)
  then show ?case using Cons by simp
qed

lemma reGroup_SomeD:
  assumes "reGroup g = Some (m1, m2)"
  shows "m1 = takeWhile isDigit g \<and> m2 = drop 2 (dropWhile isDigit g) \<and> list_all isDigit m2"
proof -
  have "reGroup g = Some (takeWhile isDigit g, drop 2 (dropWhile isDigit g))
      \<and> list_all isDigit (drop 2 (dropWhile isDigit g))"
    using assms unfolding reGroup_def Let_def by (metis option.distinct(1))
  then show ?thesis using assms by simp
qed

lemma reGroup_digits:
  assumes "reGroup g = Some (m1, m2)"
  shows "list_all isDigit m1" "list_all isDigit m2"
proof -
  have "m1 = takeWhile isDigit g" using reGroup_SomeD [OF assms] by simp
  then show "list_all isDigit m1" by (auto simp: list_all_iff dest: set_takeWhileD)
  show "list_all isDigit m2" using reGroup_SomeD [OF assms] by blast
qed

text \<open>
  The model of the pattern agrees with its direct reading: one or two digits,
  \<^verbatim>\<open>of\<close>, one or two digits, and nothing else.
\<close>

lemma reGroup_iff:
  "reGroup g = Some (a, b) \<longleftrightarrow>
     g = a @ ''of'' @ b \<and> list_all isDigit a \<and> list_all isDigit b
     \<and> (length a = 1 \<or> length a = 2) \<and> (length b = 1 \<or> length b = 2)"
proof
  assume r: "reGroup g = Some (a, b)"
  have a: "a = takeWhile isDigit g" and b: "b = drop 2 (dropWhile isDigit g)"
    using reGroup_SomeD [OF r] by simp_all
  have of: "take 2 (dropWhile isDigit g) = ''of''"
    and la: "length a = 1 \<or> length a = 2" and lb: "length b = 1 \<or> length b = 2"
    using r unfolding reGroup_def Let_def a b by (simp_all split: if_splits)
  have "g = takeWhile isDigit g @ take 2 (dropWhile isDigit g) @ drop 2 (dropWhile isDigit g)"
    by simp
  then have "g = a @ ''of'' @ b" using a b of by simp
  then show "g = a @ ''of'' @ b \<and> list_all isDigit a \<and> list_all isDigit b
     \<and> (length a = 1 \<or> length a = 2) \<and> (length b = 1 \<or> length b = 2)"
    using reGroup_digits [OF r] la lb by simp
next
  assume h: "g = a @ ''of'' @ b \<and> list_all isDigit a \<and> list_all isDigit b
     \<and> (length a = 1 \<or> length a = 2) \<and> (length b = 1 \<or> length b = 2)"
  have o: "\<not> isDigit CHR ''o''" by (simp add: isDigit_def)
  have da: "\<forall>c \<in> set a. isDigit c" using h by (simp add: list_all_iff)
  have t: "takeWhile isDigit g = a"
    using h da o by (simp add: takeWhile_append2)
  have d: "dropWhile isDigit g = ''of'' @ b"
    using h da o by (simp add: dropWhile_append2)
  show "reGroup g = Some (a, b)"
    unfolding reGroup_def Let_def t d using h by simp
qed

lemma Atoi_nonneg: "list_all isDigit s \<Longrightarrow> 0 \<le> Atoi s"
  unfolding Atoi_def by (rule Atoi_nonneg_aux) simp_all

lemmas parse_eval = parseGroups_def reGroup_def isDigit_def Atoi_def digitVal_def GroupLimit_def Let_def

text \<open>
  Claim C5, as amended. The claim asks for \<open>1 \<le> threshold \<le> count \<le> 16\<close> on every
  pair \<^verbatim>\<open>parseGroups\<close> returns. The source checks the two upper bounds and
  \<open>threshold \<le> count\<close> only, as its error message says (\<^verbatim>\<open>M <= N, N <= 16\<close>), and the
  pattern admits the digit 0: every returned pair satisfies
  \<open>0 \<le> threshold \<le> count \<le> 16\<close>.
\<close>

theorem parseGroups_bounds:
  assumes "parseGroups gs = Inr groups"
  shows "\<forall>p \<in> set groups.
           0 \<le> MemberThreshold p \<and> MemberThreshold p \<le> MemberCount p \<and> MemberCount p \<le> 16"
proof
  fix p assume p: "p \<in> set groups"
  have none: "find offending gs = None"
    using parseGroups_loop_char [of gs "[]"] assms
    by (cases "find offending gs") (simp_all add: parseGroups_def)
  then have pairs: "list_all2 tokenPair gs groups"
    using parseGroups_loop_char [of gs "[]"] assms by (simp add: parseGroups_def)
  from p obtain i where i: "i < length groups" "groups ! i = p"
    by (auto simp: in_set_conv_nth)
  have len: "length gs = length groups" using pairs by (rule list_all2_lengthD)
  define g where "g = gs ! i"
  have tp: "tokenPair g p" using pairs i len by (auto simp: g_def list_all2_conv_all_nth)
  have "g \<in> set gs" using i len by (simp add: g_def)
  then have ok: "\<not> offending g" using none by (simp add: find_None_iff)
  from tp obtain m1 m2 where m: "reGroup g = Some (m1, m2)"
    and pv: "p = \<lparr>MemberThreshold = Atoi m1, MemberCount = Atoi m2\<rparr>"
    by (auto simp: tokenPair_def split: option.splits)
  have "0 \<le> Atoi m1" using reGroup_digits(1) [OF m] by (rule Atoi_nonneg)
  moreover have "Atoi m1 \<le> Atoi m2 \<and> Atoi m2 \<le> 16"
    using ok m by (simp add: offending_def)
  ultimately show "0 \<le> MemberThreshold p \<and> MemberThreshold p \<le> MemberCount p \<and> MemberCount p \<le> 16"
    using pv by simp
qed

theorem parseGroups_bounds_witness:
  "parseGroups [''2of3'', ''16of16''] =
     Inr [\<lparr>MemberThreshold = 2, MemberCount = 3\<rparr>, \<lparr>MemberThreshold = 16, MemberCount = 16\<rparr>]
   \<and> list_all (\<lambda>p. 0 \<le> MemberThreshold p \<and> MemberThreshold p \<le> MemberCount p \<and> MemberCount p \<le> 16)
        [\<lparr>MemberThreshold = 2, MemberCount = 3\<rparr>, \<lparr>MemberThreshold = 16, MemberCount = 16\<rparr>]"
proof -
  have r: "parseGroups [''2of3'', ''16of16''] =
     Inr [\<lparr>MemberThreshold = 2, MemberCount = 3\<rparr>, \<lparr>MemberThreshold = 16, MemberCount = 16\<rparr>]"
    by (simp add: parse_eval)
  show ?thesis using r parseGroups_bounds [OF r] by (simp add: list_all_iff)
qed

text \<open>
  Claim C5 as stated fails: the token \<^verbatim>\<open>0of3\<close> is accepted and its pair has
  threshold 0.
\<close>

theorem parseGroups_threshold_zero:
  "parseGroups [''0of3''] = Inr [\<lparr>MemberThreshold = 0, MemberCount = 3\<rparr>]
   \<and> \<not> 1 \<le> MemberThreshold \<lparr>MemberThreshold = 0, MemberCount = 3\<rparr>"
  by (simp add: parse_eval)

text \<open>
  Claim C6. \<^verbatim>\<open>parseGroups\<close> stops at the first offending token (\<open>find\<close> gives the
  first one in the order of the list) and returns the error built for that token, which
  quotes the token verbatim; when no token is offending it returns exactly one pair per
  token, in the order of the tokens (\<open>list_all2\<close>).
\<close>

theorem parseGroups_first_offending:
  "case find offending gs of
     Some g \<Rightarrow> parseGroups gs = Inl (groupError g) \<and> errorToken (groupError g) = Some g
   | None \<Rightarrow> (\<exists>groups. parseGroups gs = Inr groups \<and> list_all2 tokenPair gs groups)"
proof (cases "find offending gs")
  case None
  then show ?thesis using parseGroups_loop_char [of gs "[]"] by (simp add: parseGroups_def)
next
  case (Some g)
  have "errorToken (groupError g) = Some g"
    by (simp add: groupError_def split: option.splits)
  then show ?thesis using Some parseGroups_loop_char [of gs "[]"] by (simp add: parseGroups_def)
qed

theorem parseGroups_first_offending_witness:
  "parseGroups [''2of3'', ''17of20'', ''x''] = Inl (InvalidGroupFormat ''17of20'' 16)
   \<and> parseGroups [''2of3'', ''3of2''] = Inl (InvalidGroupFormat ''3of2'' 16)
   \<and> parseGroups [''1of1'', ''two of 3'', ''9of9''] = Inl (InvalidGroupDefinition ''two of 3'')
   \<and> parseGroups [''1of1'', ''2of16''] =
       Inr [\<lparr>MemberThreshold = 1, MemberCount = 1\<rparr>, \<lparr>MemberThreshold = 2, MemberCount = 16\<rparr>]"
  using parseGroups_first_offending [of "[''2of3'', ''17of20'', ''x'']"]
    parseGroups_first_offending [of "[''2of3'', ''3of2'']"]
    parseGroups_first_offending [of "[''1of1'', ''two of 3'', ''9of9'']"]
    parseGroups_first_offending [of "[''1of1'', ''2of16'']"]
  by (auto simp add: offending_def groupError_def tokenPair_def reGroup_def isDigit_def Atoi_def
      digitVal_def Let_def list_all2_Cons1)

section \<open>Properties of convertWordsToShares\<close>

lemma chunks_Nil [simp]: "chunks n [] = []"
  by (simp add: chunks.simps)

lemma chunks_step: "0 < n \<Longrightarrow> xs \<noteq> [] \<Longrightarrow> chunks n xs = take n xs # chunks n (drop n xs)"
  by (subst chunks.simps) simp

lemma concat_chunks: "0 < n \<Longrightarrow> concat (chunks n xs) = xs"
proof (induction n xs rule: chunks.induct)
  case (1 n xs)
  show ?case
  proof (cases "xs = []")
    case True then show ?thesis by simp
  next
    case False
    with 1 show ?thesis by (simp add: chunks_step)
  qed
qed

lemma chunks_lengths:
  "0 < n \<Longrightarrow> n dvd length xs \<Longrightarrow> list_all (\<lambda>c. length c = n) (chunks n xs)"
proof (induction n xs rule: chunks.induct)
  case (1 n xs)
  show ?case
  proof (cases "xs = []")
    case True then show ?thesis by simp
  next
    case False
    have le: "n \<le> length xs" using False "1.prems" by (auto dest: dvd_imp_le)
    have "n dvd length (drop n xs)" using "1.prems" le by (simp add: dvd_diff_nat)
    with 1 False le show ?thesis by (simp add: chunks_step)
  qed
qed

lemma length_chunks:
  "0 < n \<Longrightarrow> n dvd length xs \<Longrightarrow> length (chunks n xs) = length xs div n"
proof (induction n xs rule: chunks.induct)
  case (1 n xs)
  show ?case
  proof (cases "xs = []")
    case True then show ?thesis by simp
  next
    case False
    have le: "n \<le> length xs" using False "1.prems" by (auto dest: dvd_imp_le)
    have d: "n dvd length (drop n xs)" using "1.prems" le by (simp add: dvd_diff_nat)
    have "length (chunks n xs) = Suc ((length xs - n) div n)"
      using 1 False d by (simp add: chunks_step)
    also have "\<dots> = length xs div n"
      using le "1.prems"(1) by (simp add: le_div_geq)
    finally show ?thesis .
  qed
qed

lemma loop_chunks:
  "0 < mlen \<Longrightarrow> i \<le> length words \<Longrightarrow> mlen dvd (length words - i) \<Longrightarrow>
   convertWordsToShares_loop words mlen i acc =
     Inr (acc @ map (\<lambda>c. Join c '' '') (chunks mlen (drop i words)))"
proof (induction words mlen i acc rule: convertWordsToShares_loop.induct)
  case (1 words mlen i mnemonics)
  show ?case
  proof (cases "i < length words")
    case False
    then show ?thesis using "1.prems" by (subst convertWordsToShares_loop.simps) simp
  next
    case True
    have le: "mlen \<le> length words - i"
      using True "1.prems" by (auto dest: dvd_imp_le)
    have b: "i + mlen \<le> length words" using le True by arith
    have d: "mlen dvd (length words - (i + mlen))"
      using "1.prems"(3) le by (metis diff_diff_left dvd_diff_nat dvd_refl)
    have ne: "drop i words \<noteq> []" using True by simp
    have "convertWordsToShares_loop words mlen i mnemonics =
          convertWordsToShares_loop words mlen (i + mlen)
            (mnemonics @ [Join (take mlen (drop i words)) '' ''])"
      using True b "1.prems"(1) by (subst convertWordsToShares_loop.simps) simp
    also have "\<dots> = Inr ((mnemonics @ [Join (take mlen (drop i words)) '' '']) @
        map (\<lambda>c. Join c '' '') (chunks mlen (drop (i + mlen) words)))"
      using "1.IH" True b d "1.prems"(1) by simp
    also have "\<dots> = Inr (mnemonics @ map (\<lambda>c. Join c '' '') (chunks mlen (drop i words)))"
      using chunks_step [OF "1.prems"(1) ne] by (simp add: add.commute)
    finally show ?thesis .
  qed
qed

lemma convertWordsToShares_char:
  "convertWordsToShares words =
     (if words = [] then Inl NoWordsProvided
      else if length words mod 33 = 0 then Inr (map (\<lambda>c. Join c '' '') (chunks 33 words))
      else if length words mod 20 = 0 then Inr (map (\<lambda>c. Join c '' '') (chunks 20 words))
      else Inl (InvalidWordListLength (length words)))"
  by (simp add: convertWordsToShares_def loop_chunks mod_eq_0_iff_dvd)

lemma splitSpaces_nonempty: "splitSpaces s \<noteq> []"
  by (induction s) (auto split: list.splits)

lemma Join_Cons_nonempty: "ws \<noteq> [] \<Longrightarrow> Join (w # ws) sep = w @ sep @ Join ws sep"
  by (cases ws) simp_all

lemma Join_splitSpaces: "Join (splitSpaces s) '' '' = s"
proof (induction s)
  case Nil
  then show ?case by simp
next
  case (Cons c cs)
  show ?case
  proof (cases "c = CHR '' ''")
    case True
    then show ?thesis
      using Cons.IH splitSpaces_nonempty [of cs] by (simp add: Join_Cons_nonempty)
  next
    case False
    obtain w ws where sp: "splitSpaces cs = w # ws"
      using splitSpaces_nonempty [of cs] by (cases "splitSpaces cs") auto
    have "Join ((c # w) # ws) '' '' = c # Join (w # ws) '' ''"
      by (cases ws) simp_all
    then show ?thesis using False sp Cons.IH by simp
  qed
qed

lemma chunks_concat:
  "0 < n \<Longrightarrow> list_all (\<lambda>ws. length ws = n) wss \<Longrightarrow> chunks n (concat wss) = wss"
proof (induction wss)
  case Nil
  then show ?case by simp
next
  case (Cons ws wss)
  have "ws @ concat wss \<noteq> []" using Cons.prems by auto
  then show ?case using Cons by (simp add: chunks_step)
qed

lemma length_concat_uniform:
  "list_all (\<lambda>ws. length ws = n) wss \<Longrightarrow> length (concat wss) = length wss * n"
  by (induction wss) simp_all

lemma wordsOf_chunks:
  assumes "shares \<noteq> []" "0 < L" "list_all (\<lambda>s. length (splitSpaces s) = L) shares"
  shows "map (\<lambda>c. Join c '' '') (chunks L (wordsOf shares)) = shares"
    and "length (wordsOf shares) = length shares * L" and "wordsOf shares \<noteq> []"
proof -
  let ?wss = "map splitSpaces shares"
  have u: "list_all (\<lambda>ws. length ws = L) ?wss"
    using assms(3) by (simp add: list_all_iff)
  have "chunks L (wordsOf shares) = ?wss"
    unfolding wordsOf_def using assms(2) u by (rule chunks_concat)
  then show "map (\<lambda>c. Join c '' '') (chunks L (wordsOf shares)) = shares"
    by (simp add: Join_splitSpaces o_def)
  show len: "length (wordsOf shares) = length shares * L"
    unfolding wordsOf_def using length_concat_uniform [OF u] by simp
  show "wordsOf shares \<noteq> []"
    using len assms(1,2) by (metis length_0_conv mult_is_0 less_numeral_extra(3))
qed

lemma concat_replicate_replicate:
  "concat (replicate n (replicate m x)) = replicate (n * m) x"
  by (induction n) (simp_all add: replicate_add)

lemma splitSpaces_share20: "splitSpaces share20 = replicate 20 ''a''"
  unfolding share20_def by code_simp

lemma splitSpaces_share33: "splitSpaces share33 = replicate 33 ''a''"
  unfolding share33_def by code_simp

lemma wordsOf_replicate_share20: "wordsOf (replicate n share20) = replicate (n * 20) ''a''"
  by (simp add: wordsOf_def splitSpaces_share20 concat_replicate_replicate)

text \<open>
  Claim C7. On a non-empty word list: a length that is a multiple of 33 gives chunks of
  33 words; otherwise a length that is a multiple of 20 gives chunks of 20 words;
  otherwise the call fails with the invalid-length error that carries the word count.
  On success the result is the list cut into consecutive chunks of that size (their
  concatenation is the list, each has that many words), each chunk joined with single
  spaces.
\<close>

theorem convertWordsToShares_partition:
  assumes "words \<noteq> []"
  shows "(length words mod 33 = 0 \<longrightarrow>
            convertWordsToShares words = Inr (map (\<lambda>c. Join c '' '') (chunks 33 words))
            \<and> concat (chunks 33 words) = words
            \<and> list_all (\<lambda>c. length c = 33) (chunks 33 words))
       \<and> (length words mod 33 \<noteq> 0 \<and> length words mod 20 = 0 \<longrightarrow>
            convertWordsToShares words = Inr (map (\<lambda>c. Join c '' '') (chunks 20 words))
            \<and> concat (chunks 20 words) = words
            \<and> list_all (\<lambda>c. length c = 20) (chunks 20 words))
       \<and> (length words mod 33 \<noteq> 0 \<and> length words mod 20 \<noteq> 0 \<longrightarrow>
            convertWordsToShares words = Inl (InvalidWordListLength (length words)))"
  using assms
  by (simp add: convertWordsToShares_char concat_chunks chunks_lengths mod_eq_0_iff_dvd)

theorem convertWordsToShares_partition_witness:
  "replicate 40 ''a'' \<noteq> []
   \<and> convertWordsToShares (replicate 40 ''a'') = Inr [share20, share20]
   \<and> convertWordsToShares (replicate 7 ''a'') = Inl (InvalidWordListLength 7)"
proof -
  have c: "chunks 20 (replicate 40 ''a'') = [replicate 20 ''a'', replicate 20 ''a'']"
    using chunks_concat [of 20 "[replicate 20 ''a'', replicate 20 ''a'']"]
    by (simp flip: replicate_add)
  have "convertWordsToShares (replicate 40 ''a'') = Inr (map (\<lambda>c. Join c '' '') (chunks 20 (replicate 40 ''a'')))"
    using convertWordsToShares_partition [of "replicate 40 ''a''"] by simp
  moreover have "convertWordsToShares (replicate 7 ''a'') = Inl (InvalidWordListLength 7)"
    using convertWordsToShares_partition [of "replicate 7 ''a''"] by simp
  ultimately show ?thesis by (simp add: c share20_def)
qed

text \<open>
  Claim C8, as amended. Flattening \<open>N > 0\<close> shares of \<open>L\<close> space-separated words each
  and converting the words back gives the shares again when \<open>L = 33\<close>, or when
  \<open>L = 20\<close> and \<open>N\<close> is not a multiple of 33. (With \<open>L = 20\<close> and \<open>N\<close> a multiple of
  33 the word count is a multiple of 33 as well, and the source tries 33 first.)
\<close>

theorem convertWordsToShares_roundtrip:
  assumes "shares \<noteq> []" and "L = 20 \<or> L = 33"
    and "list_all (\<lambda>s. length (splitSpaces s) = L) shares"
    and "L = 33 \<or> length shares mod 33 \<noteq> 0"
  shows "convertWordsToShares (wordsOf shares) = Inr shares"
proof -
  have L: "0 < L" using assms(2) by auto
  note aux = wordsOf_chunks [OF assms(1) L assms(3)]
  show ?thesis
  proof (cases "L = 33")
    case True
    then show ?thesis using aux by (simp add: convertWordsToShares_char)
  next
    case False
    then have L20: "L = 20" and n: "\<not> 33 dvd length shares"
      using assms(2,4) by (auto simp: mod_eq_0_iff_dvd)
    have "\<not> 33 dvd length shares * 20"
    proof
      assume "33 dvd length shares * 20"
      then have "33 dvd length shares * 20 * 5" by (rule dvd_mult2)
      moreover have "(33::nat) dvd length shares * 99" by simp
      ultimately have "33 dvd length shares * 20 * 5 - length shares * 99"
        by (rule dvd_diff_nat)
      then show False using n by simp
    qed
    then show ?thesis using aux L20 by (simp add: convertWordsToShares_char mod_eq_0_iff_dvd)
  qed
qed


theorem convertWordsToShares_roundtrip_witness:
  "[share20, share20] \<noteq> [] \<and> list_all (\<lambda>s. length (splitSpaces s) = 20) [share20, share20]
   \<and> convertWordsToShares (wordsOf [share20, share20]) = Inr [share20, share20]"
proof -
  have h: "list_all (\<lambda>s. length (splitSpaces s) = 20) [share20, share20]"
    by (simp add: splitSpaces_share20)
  have "convertWordsToShares (wordsOf [share20, share20]) = Inr [share20, share20]"
    using convertWordsToShares_roundtrip [of "[share20, share20]" 20] h by simp
  then show ?thesis using h by simp
qed

text \<open>
  Claim C8 as stated fails for 33 shares of 20 words: their 660 words come back as 20
  shares of 33 words.
\<close>

theorem roundtrip_33_shares_of_20:
  "length (replicate 33 share20) = 33
   \<and> list_all (\<lambda>s. length (splitSpaces s) = 20) (replicate 33 share20)
   \<and> convertWordsToShares (wordsOf (replicate 33 share20)) = Inr (replicate 20 share33)
   \<and> replicate 20 share33 \<noteq> replicate 33 share20"
proof -
  have w: "wordsOf (replicate 33 share20) = wordsOf (replicate 20 share33)"
    by (simp add: wordsOf_def splitSpaces_share20 splitSpaces_share33 concat_replicate_replicate)
  have h33: "list_all (\<lambda>s. length (splitSpaces s) = 33) (replicate 20 share33)"
    by (simp add: list_all_iff splitSpaces_share33)
  have a: "map (\<lambda>c. Join c '' '') (chunks 33 (wordsOf (replicate 20 share33))) = replicate 20 share33"
    by (rule wordsOf_chunks(1) [OF _ _ h33]) simp_all
  have l: "length (wordsOf (replicate 33 share20)) = 660"
    by (simp add: wordsOf_replicate_share20)
  have ne: "wordsOf (replicate 33 share20) \<noteq> []" using l by auto
  have r: "convertWordsToShares (wordsOf (replicate 33 share20)) = Inr (replicate 20 share33)"
    using a l ne by (simp add: convertWordsToShares_char w)
  have "length (replicate 20 share33) \<noteq> length (replicate 33 share20)" by simp
  then have d: "replicate 20 share33 \<noteq> replicate 33 share20" by metis
  show ?thesis using r d by (simp add: list_all_iff splitSpaces_share20)
qed

section \<open>Properties of readShareMnemonics\<close>

lemma Contains_space: "Contains s '' '' \<longleftrightarrow> CHR '' '' \<in> set s"
  by (induction s) auto

text \<open>
  Claim C9, as amended. The list is assembled by the number of argument tokens: with 1
  to 19 tokens one entry per token, lowercased; with 20 or more a single entry, the
  tokens joined by single spaces, lowercased; without tokens, the trimmed and
  lowercased lines of the reader. When the list is not empty and its first entry,
  trimmed of surrounding white space, contains no space character, the result is that
  of \<^verbatim>\<open>convertWordsToShares\<close> on the whole list; otherwise the assembled list is
  returned as it is. (The claim speaks of white space inside the first entry; the
  source tests for the space character alone.)
\<close>

theorem readShareMnemonics_branches:
  "(1 \<le> length args \<and> length args \<le> 19 \<longrightarrow>
      readShareMnemonics ToLower TrimSpace rd args =
        (if Contains (TrimSpace (hd (map ToLower args))) '' ''
         then Inr (map ToLower args)
         else convertWordsToShares (map ToLower args)))
   \<and> (20 \<le> length args \<longrightarrow>
      readShareMnemonics ToLower TrimSpace rd args =
        (if Contains (TrimSpace (ToLower (Join args '' ''))) '' ''
         then Inr [ToLower (Join args '' '')]
         else convertWordsToShares [ToLower (Join args '' '')]))
   \<and> (args = [] \<and> scanErr rd = None \<and> scanned rd \<noteq> [] \<longrightarrow>
      readShareMnemonics ToLower TrimSpace rd args =
        (if Contains (TrimSpace (hd (map (\<lambda>line. ToLower (TrimSpace line)) (scanned rd)))) '' ''
         then Inr (map (\<lambda>line. ToLower (TrimSpace line)) (scanned rd))
         else convertWordsToShares (map (\<lambda>line. ToLower (TrimSpace line)) (scanned rd))))"
proof -
  have few: "readShareMnemonics ToLower TrimSpace rd args =
        (if Contains (TrimSpace (hd (map ToLower args))) '' ''
         then Inr (map ToLower args)
         else convertWordsToShares (map ToLower args))"
    if lo: "1 \<le> length args" and hi: "length args \<le> 19"
  proof -
    have "0 < length args \<and> length args < 20" using lo hi by (cases args) simp_all
    then show ?thesis unfolding readShareMnemonics_def Let_def
      by (cases args) simp_all
  qed
  have many: "readShareMnemonics ToLower TrimSpace rd args =
        (if Contains (TrimSpace (ToLower (Join args '' ''))) '' ''
         then Inr [ToLower (Join args '' '')]
         else convertWordsToShares [ToLower (Join args '' '')])"
    if "20 \<le> length args"
  proof -
    have "\<not> (0 < length args \<and> length args < 20)" using that by simp
    then show ?thesis unfolding readShareMnemonics_def Let_def using that by simp
  qed
  have none: "readShareMnemonics ToLower TrimSpace rd args =
        (if Contains (TrimSpace (hd (map (\<lambda>line. ToLower (TrimSpace line)) (scanned rd)))) '' ''
         then Inr (map (\<lambda>line. ToLower (TrimSpace line)) (scanned rd))
         else convertWordsToShares (map (\<lambda>line. ToLower (TrimSpace line)) (scanned rd)))"
    if e: "args = []" and ok: "scanErr rd = None" and ne: "scanned rd \<noteq> []"
  proof -
    obtain l ls where l: "scanned rd = l # ls" using ne by (cases "scanned rd") simp_all
    show ?thesis unfolding readShareMnemonics_def Let_def using e ok by (simp add: l)
  qed
  show ?thesis
  proof (intro conjI impI)
    assume "1 \<le> length args \<and> length args \<le> 19"
    then show "readShareMnemonics ToLower TrimSpace rd args =
        (if Contains (TrimSpace (hd (map ToLower args))) '' ''
         then Inr (map ToLower args)
         else convertWordsToShares (map ToLower args))"
      by (intro few) (elim conjE, assumption)+
  next
    assume "20 \<le> length args"
    then show "readShareMnemonics ToLower TrimSpace rd args =
        (if Contains (TrimSpace (ToLower (Join args '' ''))) '' ''
         then Inr [ToLower (Join args '' '')]
         else convertWordsToShares [ToLower (Join args '' '')])"
      by (rule many)
  next
    assume "args = [] \<and> scanErr rd = None \<and> scanned rd \<noteq> []"
    then show "readShareMnemonics ToLower TrimSpace rd args =
        (if Contains (TrimSpace (hd (map (\<lambda>line. ToLower (TrimSpace line)) (scanned rd)))) '' ''
         then Inr (map (\<lambda>line. ToLower (TrimSpace line)) (scanned rd))
         else convertWordsToShares (map (\<lambda>line. ToLower (TrimSpace line)) (scanned rd)))"
      by (intro none) (elim conjE, assumption)+
  qed
qed

theorem readShareMnemonics_branches_witness:
  "readShareMnemonics asciiToLower asciiTrimSpace \<lparr>scanned = [], scanErr = None\<rparr>
       [''Academic Acid'', ''ACROBAT romp'']
     = Inr [''academic acid'', ''acrobat romp'']
   \<and> readShareMnemonics asciiToLower asciiTrimSpace \<lparr>scanned = [], scanErr = None\<rparr>
       [''Academic'', ''ACROBAT'']
     = Inl (InvalidWordListLength 2)
   \<and> readShareMnemonics asciiToLower asciiTrimSpace \<lparr>scanned = [], scanErr = None\<rparr>
       (replicate 20 ''Acid'')
     = Inr [acid20]
   \<and> readShareMnemonics asciiToLower asciiTrimSpace
       \<lparr>scanned = replicate 20 '' Acid  '', scanErr = None\<rparr> []
     = Inr [acid20]"
proof -
  let ?rd = "\<lparr>scanned = [], scanErr = None\<rparr>"
  let ?rd2 = "\<lparr>scanned = replicate 20 '' Acid  '', scanErr = None\<rparr>"
  have l1: "map asciiToLower [''Academic Acid'', ''ACROBAT romp''] = [''academic acid'', ''acrobat romp'']"
    by code_simp
  have c1: "Contains (asciiTrimSpace ''academic acid'') '' ''" by code_simp
  have l2: "map asciiToLower [''Academic'', ''ACROBAT''] = [''academic'', ''acrobat'']"
    by code_simp
  have c2: "\<not> Contains (asciiTrimSpace ''academic'') '' ''" by code_simp
  have r2: "convertWordsToShares [''academic'', ''acrobat''] = Inl (InvalidWordListLength 2)"
    by code_simp
  have l3: "asciiToLower (Join (replicate 20 ''Acid'') '' '') = acid20"
    unfolding acid20_def by code_simp
  have c3: "Contains (asciiTrimSpace acid20) '' ''" unfolding acid20_def by code_simp
  have l4: "map (\<lambda>line. asciiToLower (asciiTrimSpace line)) (replicate 20 '' Acid  '')
      = replicate 20 ''acid''"
    by code_simp
  have c4: "\<not> Contains (asciiTrimSpace ''acid'') '' ''" by code_simp
  have r4: "convertWordsToShares (replicate 20 ''acid'') = Inr [acid20]"
    unfolding acid20_def by code_simp
  have "readShareMnemonics asciiToLower asciiTrimSpace ?rd [''Academic Acid'', ''ACROBAT romp'']
     = Inr [''academic acid'', ''acrobat romp'']"
    using readShareMnemonics_branches [of "[''Academic Acid'', ''ACROBAT romp'']" asciiToLower asciiTrimSpace ?rd]
    unfolding l1 using c1 by simp
  moreover have "readShareMnemonics asciiToLower asciiTrimSpace ?rd [''Academic'', ''ACROBAT'']
     = Inl (InvalidWordListLength 2)"
    using readShareMnemonics_branches [of "[''Academic'', ''ACROBAT'']" asciiToLower asciiTrimSpace ?rd]
    unfolding l2 using c2 r2 by simp
  moreover have "readShareMnemonics asciiToLower asciiTrimSpace ?rd (replicate 20 ''Acid'')
     = Inr [acid20]"
    using readShareMnemonics_branches [of "replicate 20 ''Acid''" asciiToLower asciiTrimSpace ?rd]
    unfolding l3 using c3 by simp
  moreover have "readShareMnemonics asciiToLower asciiTrimSpace ?rd2 [] = Inr [acid20]"
    using readShareMnemonics_branches [of "[]" asciiToLower asciiTrimSpace ?rd2]
    unfolding reader.simps l4 using c4 r4 by simp
  ultimately show ?thesis by simp
qed

text \<open>
  Claim C9 as stated fails for a single token \<^verbatim>\<open>a<TAB>b\<close>: the entry has white space
  inside, so the claim has it returned as the one entry of the list, but it contains
  no space character and the source sends the list through
  \<^verbatim>\<open>convertWordsToShares\<close>, which rejects a list of one word.
\<close>

theorem readShareMnemonics_tab_rerouted:
  "readShareMnemonics asciiToLower asciiTrimSpace \<lparr>scanned = [], scanErr = None\<rparr> [tabEntry]
     = Inl (InvalidWordListLength 1)
   \<and> map asciiToLower [tabEntry] = [tabEntry]
   \<and> \<not> noInternalWhitespace asciiTrimSpace tabEntry"
  unfolding tabEntry_def by code_simp

text \<open>
  Claim C4 asks for an empty-input error when there are no argument tokens and the
  reader yields no line. The source then reads \<^verbatim>\<open>mnemonics[0]\<close> of the empty slice:
  the call panics with an index out of range, before \<^verbatim>\<open>convertWordsToShares\<close> and its
  check for an empty list are reached.
\<close>

theorem readShareMnemonics_no_input_panics:
  "readShareMnemonics ToLower TrimSpace \<lparr>scanned = [], scanErr = None\<rparr> [] = Inl (Panic IndexOutOfRange)"
  by (simp add: readShareMnemonics_def)

section \<open>Properties of bip39Entropy and bip39ChecksumWords\<close>

lemma shift_or_add:
  fixes a b :: nat
  assumes "b < 2 ^ n"
  shows "push_bit n a OR b = a * 2 ^ n + b"
proof -
  have b: "take_bit n b = b" using assms by (simp add: take_bit_nat_eq_self_iff)
  have "push_bit n a + take_bit n b = push_bit n a OR take_bit n b"
    by (rule disjunctive_add) (auto simp: bit_simps)
  then show ?thesis by (simp add: b push_bit_eq_mult)
qed

lemma wordMap_snoc: "wordMap (wl @ [w]) = (wordMap wl)(w \<mapsto> length wl)"
  by (simp add: wordMap_def)

lemma wordMap_Nil: "wordMap [] = Map.empty"
  by (simp add: wordMap_def)

lemma GetWordIndex_None: "GetWordIndex wl w = None \<longleftrightarrow> w \<notin> set wl"
  unfolding GetWordIndex_def
  by (induction wl rule: rev_induct) (simp_all add: wordMap_Nil wordMap_snoc)

lemma GetWordIndex_less: "GetWordIndex wl w = Some i \<Longrightarrow> i < length wl"
  unfolding GetWordIndex_def
proof (induction wl rule: rev_induct)
  case Nil
  then show ?case by (simp add: wordMap_Nil)
next
  case (snoc x xs)
  then show ?case by (cases "w = x") (auto simp: wordMap_snoc less_Suc_eq)
qed




lemma bip39Entropy_loop_bound:
  "bip39Entropy_loop wl ws a = Inr e \<Longrightarrow> length wl \<le> 2048 \<Longrightarrow> a < 2 ^ k \<Longrightarrow>
   e < 2 ^ (k + 11 * length ws)"
proof (induction ws arbitrary: a k)
  case Nil
  then show ?case by simp
next
  case (Cons w ws)
  from Cons.prems(1) obtain idx where idx: "GetWordIndex wl w = Some idx"
    and rest: "bip39Entropy_loop wl ws (push_bit 11 a OR idx) = Inr e"
    by (cases "GetWordIndex wl w") auto
  have "idx < 2048" using GetWordIndex_less [OF idx] Cons.prems(2) by simp
  then have i: "idx < 2 ^ 11" by simp
  have "a + 1 \<le> 2 ^ k" using Cons.prems(3) by simp
  then have "(a + 1) * 2 ^ 11 \<le> 2 ^ k * 2 ^ 11" by (rule mult_le_mono1)
  then have "a * 2 ^ 11 + idx < 2 ^ (k + 11)"
    using i by (simp add: power_add)
  then have "push_bit 11 a OR idx < 2 ^ (k + 11)"
    using shift_or_add [OF i, of a] by simp
  from Cons.IH [OF rest Cons.prems(2) this] show ?case by (simp add: add.assoc)
qed

lemma bip39Entropy_loop_invalid:
  "find (\<lambda>w. w \<notin> set wl) ws = Some w \<Longrightarrow> bip39Entropy_loop wl ws a = Inl (InvalidWord w)"
proof (induction ws arbitrary: a)
  case Nil
  then show ?case by simp
next
  case (Cons v ws)
  show ?case
  proof (cases "v \<in> set wl")
    case True
    then obtain idx where "GetWordIndex wl v = Some idx"
      using GetWordIndex_None [of wl v] by (cases "GetWordIndex wl v") auto
    then show ?thesis using Cons True by simp
  next
    case False
    then have "GetWordIndex wl v = None" by (simp add: GetWordIndex_None)
    then show ?thesis using Cons.prems False by simp
  qed
qed

lemma checksum_loop_map:
  assumes "\<And>j. i \<le> j \<Longrightarrow> j < n \<Longrightarrow> checksum_round H wl cb es j (c + (j - i)) = Inr (f j)"
  shows "checksum_loop H wl cb es n i c acc = Inr (acc @ map f [i..<n])"
  using assms
proof (induction H wl cb es n i c acc rule: checksum_loop.induct)
  case (1 H wl cb es n i c acc)
  show ?case
  proof (cases "i < n")
    case False
    then show ?thesis by (subst checksum_loop.simps) simp
  next
    case True
    have r: "checksum_round H wl cb es i c = Inr (f i)"
      using "1.prems" [of i] True by simp
    have "checksum_loop H wl cb es n (Suc i) (c + 1) (acc @ [f i])
          = Inr ((acc @ [f i]) @ map f [Suc i..<n])"
    proof (rule "1.IH" [OF True r])
      fix j assume j: "Suc i \<le> j" "j < n"
      then have "c + 1 + (j - Suc i) = c + (j - i)" by simp
      then show "checksum_round H wl cb es j (c + 1 + (j - Suc i)) = Inr (f j)"
        using "1.prems" [of j] j by simp
    qed
    then show ?thesis using True r
      by (subst checksum_loop.simps) (simp add: upt_conv_Cons)
  qed
qed

lemma checksum_round_ok:
  assumes "c < 256 ^ es" and "H (bigEndian es c) = h0 # hs" and "cb \<le> 8"
    and "checkwordIndex cb i h0 < length wl"
  shows "checksum_round H wl cb es i c = Inr (wl ! checkwordIndex cb i h0)"
  using assms by (simp add: checksum_round_def FillBytes_def)

lemma checksum_bound:
  fixes h0 :: byte
  assumes "cb \<le> 8"
  shows "drop_bit (8 - cb) (unat h0) < 2 ^ cb"
proof -
  have "unat h0 < 2 ^ 8" using unsigned_less [of h0] by simp
  also have "(2::nat) ^ 8 = 2 ^ (8 - cb) * 2 ^ cb"
    using assms by (simp flip: power_add)
  finally show ?thesis
    by (simp add: drop_bit_eq_div less_mult_imp_div_less mult.commute)
qed

lemma checkwordIndex_bound:
  assumes "cb \<le> 8" and "i < 2 ^ (11 - cb)"
  shows "checkwordIndex cb i h0 < 2048"
proof -
  have c: "drop_bit (8 - cb) (unat h0) < 2 ^ cb" using assms(1) by (rule checksum_bound)
  have "i + 1 \<le> 2 ^ (11 - cb)" using assms(2) by simp
  then have "(i + 1) * 2 ^ cb \<le> 2 ^ (11 - cb) * 2 ^ cb" by (rule mult_le_mono1)
  also have "\<dots> = 2 ^ 11" using assms(1) by (simp flip: power_add)
  finally have "i * 2 ^ cb + 2 ^ cb \<le> (2048::nat)" by (simp add: algebra_simps)
  then show ?thesis using c by (simp add: checkwordIndex_def push_bit_eq_mult)
qed


lemma candidate_fits:
  fixes E :: nat
  assumes "E < 2 ^ m" and "m + k = 8 * es" and "i < 2 ^ k"
  shows "push_bit k E + i < 256 ^ es"
proof -
  have "E + 1 \<le> 2 ^ m" using assms(1) by simp
  then have "(E + 1) * 2 ^ k \<le> 2 ^ m * 2 ^ k" by (rule mult_le_mono1)
  also have "\<dots> = 2 ^ (8 * es)" using assms(2) by (simp flip: power_add)
  also have "\<dots> = (256::nat) ^ es" by (simp add: power_mult)
  finally have "E * 2 ^ k + 2 ^ k \<le> (256::nat) ^ es" by (simp add: algebra_simps)
  then show ?thesis using assms(3) by (simp add: push_bit_eq_mult)
qed


lemma checksum_loop_char:
  assumes "length wl = 2048" and "\<And>bs. H bs \<noteq> []" and "cb \<le> 8"
    and "E < 2 ^ m" and "m + (11 - cb) = 8 * es"
  shows "checksum_loop H wl cb es (2 ^ (11 - cb)) 0 (push_bit (11 - cb) E) [] =
         Inr (map (nthCheckword H wl cb es (push_bit (11 - cb) E)) [0..<2 ^ (11 - cb)])"
proof -
  let ?base = "push_bit (11 - cb) E"
  have "checksum_loop H wl cb es (2 ^ (11 - cb)) 0 ?base [] =
        Inr ([] @ map (nthCheckword H wl cb es ?base) [0..<2 ^ (11 - cb)])"
  proof (rule checksum_loop_map)
    fix j :: nat assume j: "j < 2 ^ (11 - cb)"
    have fits: "?base + j < 256 ^ es" using assms(4,5) j by (rule candidate_fits)
    obtain h0 hs where h: "H (bigEndian es (?base + j)) = h0 # hs"
      using assms(2) [of "bigEndian es (?base + j)"] by (cases "H (bigEndian es (?base + j))") auto
    have idx: "checkwordIndex cb j h0 < length wl"
      using checkwordIndex_bound [OF assms(3) j] assms(1) by simp
    show "checksum_round H wl cb es j (?base + (j - 0)) = Inr (nthCheckword H wl cb es ?base j)"
      using checksum_round_ok [of "?base + j" es H h0 hs cb j wl] fits h assms(3) idx
      by (simp add: nthCheckword_def)
  qed
  then show ?thesis by simp
qed

lemma bip39Entropy_bound:
  "bip39Entropy wl ws = Inr E \<Longrightarrow> length wl = 2048 \<Longrightarrow> E < 2 ^ (11 * length ws)"
  using bip39Entropy_loop_bound [of wl ws 0 E 0] by (simp add: bip39Entropy_def)

lemma bip39ChecksumWords_11:
  assumes "length wl = 2048" and "\<And>bs. H bs \<noteq> []" and "length ws = 11"
    and "bip39Entropy wl ws = Inr E"
  shows "bip39ChecksumWords H wl ws = Inr (map (nthCheckword H wl 4 16 (push_bit 7 E)) [0..<128])"
proof -
  have E: "E < 2 ^ 121" using bip39Entropy_bound [OF assms(4,1)] assms(3) by simp
  have "checksum_loop H wl 4 16 (2 ^ (11 - 4)) 0 (push_bit (11 - 4) E) [] =
         Inr (map (nthCheckword H wl 4 16 (push_bit (11 - 4) E)) [0..<2 ^ (11 - 4)])"
    by (rule checksum_loop_char [OF assms(1,2) _ E]) simp_all
  then show ?thesis using assms(3,4) by (simp add: bip39ChecksumWords_def)
qed

lemma bip39ChecksumWords_23:
  assumes "length wl = 2048" and "\<And>bs. H bs \<noteq> []" and "length ws = 23"
    and "bip39Entropy wl ws = Inr E"
  shows "bip39ChecksumWords H wl ws = Inr (map (nthCheckword H wl 8 32 (push_bit 3 E)) [0..<8])"
proof -
  have E: "E < 2 ^ 253" using bip39Entropy_bound [OF assms(4,1)] assms(3) by simp
  have "checksum_loop H wl 8 32 (2 ^ (11 - 8)) 0 (push_bit (11 - 8) E) [] =
         Inr (map (nthCheckword H wl 8 32 (push_bit (11 - 8) E)) [0..<2 ^ (11 - 8)])"
    by (rule checksum_loop_char [OF assms(1,2) _ E]) simp_all
  then show ?thesis using assms(3,4) by (simp add: bip39ChecksumWords_def)
qed


lemma length_bigEndian [simp]: "length (bigEndian n x) = n"
  by (induction n arbitrary: x) simp_all

lemma bigEndian_value:
  "foldl (\<lambda>a b. 256 * a + unat b) 0 (bigEndian n x) = x mod 256 ^ n"
proof (induction n arbitrary: x)
  case 0
  then show ?case by simp
next
  case (Suc n)
  have "unat (of_nat (x mod 256) :: byte) = x mod 256"
    by (simp add: unat_of_nat)
  then have "foldl (\<lambda>a b. 256 * a + unat b) 0 (bigEndian (Suc n) x)
      = 256 * ((x div 256) mod 256 ^ n) + x mod 256"
    using Suc.IH [of "x div 256"] by simp
  also have "\<dots> = x mod 256 ^ Suc n"
    by (simp add: mod_mult2_eq)
  finally show ?case .
qed

lemma bip39Entropy_loop_error:
  "bip39Entropy_loop wl ws a = Inl e \<Longrightarrow> \<exists>w. e = InvalidWord w"
  by (induction ws arbitrary: a) (auto split: option.splits)

lemma sha_nonempty: "\<forall>bs. length (H bs) = 32 \<Longrightarrow> H bs \<noteq> []"
  by (metis length_0_conv zero_neq_numeral)

lemma length_sampleWordlist: "length sampleWordlist = 2048"
  by (simp add: sampleWordlist_def)


lemma sampleHash_length: "\<forall>bs. length (sampleHash bs) = 32"
  by (simp add: sampleHash_def)


lemma length_samplePartial: "length (samplePartial n) = n"
  by (simp add: samplePartial_def)

lemma zoo_not_sample: "''zoo'' \<notin> set sampleWordlist"
proof
  assume "''zoo'' \<in> set sampleWordlist"
  then obtain n where "''zoo'' = replicate (Suc n) CHR ''w''"
    by (auto simp: sampleWordlist_def sampleWord_def)
  then have "hd ''zoo'' = hd (replicate (Suc n) CHR ''w'')" by simp
  then show False by simp
qed

text \<open>
  Claim C3. When some word of the input is not in the vocabulary, \<^verbatim>\<open>bip39Entropy\<close>
  and with it \<^verbatim>\<open>bip39ChecksumWords\<close> return the invalid-word error that names the
  first such word (every word before it is in the vocabulary), and no list of words:
  the result is the error alone.
\<close>

theorem bip39ChecksumWords_invalid_word:
  assumes "\<exists>w \<in> set partialWords. w \<notin> set wordlist"
  shows "\<exists>before w after.
           partialWords = before @ w # after
         \<and> set before \<subseteq> set wordlist \<and> w \<notin> set wordlist
         \<and> bip39Entropy wordlist partialWords = Inl (InvalidWord w)
         \<and> bip39ChecksumWords sha256 wordlist partialWords = Inl (InvalidWord w)"
proof -
  from split_list_first_prop [OF assms] obtain before w after where
    s: "partialWords = before @ w # after" and w: "w \<notin> set wordlist"
    and b: "\<forall>v \<in> set before. \<not> v \<notin> set wordlist"
    by blast
  have f: "find (\<lambda>w. w \<notin> set wordlist) partialWords = Some w"
    using s w b by (auto simp: find_Some_iff nth_append intro!: exI [of _ "length before"])
  have e: "bip39Entropy wordlist partialWords = Inl (InvalidWord w)"
    using bip39Entropy_loop_invalid [OF f] by (simp add: bip39Entropy_def)
  then have "bip39ChecksumWords sha256 wordlist partialWords = Inl (InvalidWord w)"
    by (simp add: bip39ChecksumWords_def)
  then show ?thesis using s w b e by blast
qed

theorem bip39ChecksumWords_invalid_word_witness:
  "''zoo'' \<notin> set sampleWordlist
   \<and> (\<exists>before w after.
         [sampleWord 0, ''zoo'', sampleWord 1, ''zap''] = before @ w # after
       \<and> set before \<subseteq> set sampleWordlist \<and> w \<notin> set sampleWordlist
       \<and> bip39Entropy sampleWordlist [sampleWord 0, ''zoo'', sampleWord 1, ''zap'']
            = Inl (InvalidWord w)
       \<and> bip39ChecksumWords sampleHash sampleWordlist [sampleWord 0, ''zoo'', sampleWord 1, ''zap'']
            = Inl (InvalidWord w))"
proof -
  have h: "\<exists>w \<in> set [sampleWord 0, ''zoo'', sampleWord 1, ''zap'']. w \<notin> set sampleWordlist"
    using zoo_not_sample by simp
  show ?thesis
    using zoo_not_sample bip39ChecksumWords_invalid_word [OF h, of sampleHash] by simp
qed





text \<open>
  Claim C10. For a partial phrase of 11 or 23 words, in every round \<open>i\<close> of the loop
  and whatever the first byte of the hash is, the index
  \<open>(i << checksumBits) + checksum\<close> is below 2048, the length of the vocabulary: the
  lookup \<^verbatim>\<open>wordlist[idx]\<close> is in bounds, and the call never panics with an index out
  of range.
\<close>

theorem checkword_index_in_bounds:
  assumes "length wordlist = 2048"
    and "\<forall>bs. length (sha256 bs) = 32"
    and "length partialWords = 11 \<or> length partialWords = 23"
  shows "(\<forall>i < 2 ^ (11 - (length partialWords + 1) div 3). \<forall>h0.
            checkwordIndex ((length partialWords + 1) div 3) i h0 < length wordlist)
       \<and> bip39ChecksumWords sha256 wordlist partialWords \<noteq> Inl (Panic IndexOutOfRange)"
proof -
  have sha: "\<And>bs. sha256 bs \<noteq> []" using assms(2) by (rule sha_nonempty)
  have cb: "(length partialWords + 1) div 3 \<le> 8" using assms(3) by auto
  have a: "\<forall>i < 2 ^ (11 - (length partialWords + 1) div 3). \<forall>h0.
            checkwordIndex ((length partialWords + 1) div 3) i h0 < length wordlist"
    using checkwordIndex_bound [OF cb] assms(1) by simp
  have b: "bip39ChecksumWords sha256 wordlist partialWords \<noteq> Inl (Panic IndexOutOfRange)"
  proof (cases "bip39Entropy wordlist partialWords")
    case (Inl e)
    then obtain w where "e = InvalidWord w"
      using bip39Entropy_loop_error [of wordlist partialWords 0 e] by (auto simp: bip39Entropy_def)
    then show ?thesis using Inl by (simp add: bip39ChecksumWords_def)
  next
    case (Inr E)
    from assms(3) show ?thesis
    proof
      assume "length partialWords = 11"
      then show ?thesis using bip39ChecksumWords_11 [OF assms(1) sha _ Inr] by simp
    next
      assume "length partialWords = 23"
      then show ?thesis using bip39ChecksumWords_23 [OF assms(1) sha _ Inr] by simp
    qed
  qed
  show ?thesis using a b by blast
qed

theorem checkword_index_in_bounds_witness:
  "length sampleWordlist = 2048 \<and> length (samplePartial 11) = 11
   \<and> list_all (\<lambda>i. checkwordIndex 4 i 255 < length sampleWordlist) [0..<128]
   \<and> bip39ChecksumWords sampleHash sampleWordlist (samplePartial 11) \<noteq> Inl (Panic IndexOutOfRange)"
  using checkword_index_in_bounds [OF length_sampleWordlist sampleHash_length,
      of "samplePartial 11"]
  by (simp add: length_samplePartial length_sampleWordlist list_all_iff)

end
